theory Spec2Isabelle
  imports Complex_Main "HOL-Library.Word" "HOL-Library.Sublist"
begin

unbundle bit_operations_syntax

section \<open>Bytes, files and the outside world\<close>

text \<open>
  \<^verbatim>\<open>generar_credenciales.py\<close> reads a photo, an HTML template and four PDFs from the
  directory of the script and writes one HTML file. A file is its content, a list of
  bytes; the file system is a map from names (relative to the script's directory, to
  which the script changes first) to contents. Python text (\<^verbatim>\<open>str\<close>) is modelled as
  \<^typ>\<open>string\<close>: every character the script looks for or inserts is ASCII.
\<close>

type_synonym byte = "8 word"

datatype exn =
    FileNotFoundError string
  | FileDataError string
  | UnicodeDecodeError string
  | KeyError string
  | ReError string

text \<open>How the process ends: it runs to the end, calls \<^verbatim>\<open>sys.exit\<close>, or dies of an exception.\<close>

datatype outcome = Finished | SysExit nat | Raised exn

record world =
  files :: "string \<rightharpoonup> byte list"
  stdout :: "string list"

definition print :: "string \<Rightarrow> world \<Rightarrow> world" where
  "print line w = w\<lparr>stdout := stdout w @ [line]\<rparr>"

definition exists :: "world \<Rightarrow> string \<Rightarrow> bool" where
  "exists w f = (files w f \<noteq> None)"

definition getsize :: "world \<Rightarrow> string \<Rightarrow> exn + nat" where
  "getsize w f =
     (case files w f of
        None \<Rightarrow> Inl (FileNotFoundError f)
      | Some bs \<Rightarrow> Inr (length bs))"

section \<open>Base64 (the standard library's \<^verbatim>\<open>base64.b64encode\<close>)\<close>

text \<open>
  The encoder of RFC 4648, section 4, as \<^verbatim>\<open>binascii.b2a_base64\<close> computes it: three
  bytes give four 6-bit values, each masked with \<^verbatim>\<open>0x3f\<close> and looked up in the
  alphabet; one or two bytes left over are padded with \<^verbatim>\<open>=\<close>. The result is ASCII, so
  \<^verbatim>\<open>.decode('utf-8')\<close> gives the same characters as text.
\<close>

definition b64_alphabet :: string where
  "b64_alphabet = ''ABCDEFGHIJKLMNOPQRSTUVWXYZabcdefghijklmnopqrstuvwxyz0123456789+/''"

definition b64_char :: "byte \<Rightarrow> char" where
  "b64_char v = b64_alphabet ! unat (v AND 0x3f)"

fun b64encode :: "byte list \<Rightarrow> string" where
  "b64encode [] = []"
| "b64encode [a] =
     [b64_char (drop_bit 2 a), b64_char (push_bit 4 (a AND 3)), CHR ''='', CHR ''='']"
| "b64encode [a, b] =
     [b64_char (drop_bit 2 a), b64_char (push_bit 4 (a AND 3) OR drop_bit 4 b),
      b64_char (push_bit 2 (b AND 0xf)), CHR ''='']"
| "b64encode (a # b # c # rest) =
     [b64_char (drop_bit 2 a), b64_char (push_bit 4 (a AND 3) OR drop_bit 4 b),
      b64_char (push_bit 2 (b AND 0xf) OR drop_bit 6 c), b64_char c] @ b64encode rest"

text \<open>
  The decoder of the same section of the RFC, the reference the round trip is stated
  against: four characters give three bytes, and padding is accepted in the last
  group only. It is what \<^verbatim>\<open>base64.b64decode\<close> computes on a padded string over the
  alphabet.
\<close>

definition b64_index :: "char \<Rightarrow> byte option" where
  "b64_index c = map_of (zip b64_alphabet (map of_nat [0..<64])) c"

fun b64decode :: "string \<Rightarrow> byte list option" where
  "b64decode [] = Some []"
| "b64decode (c0 # c1 # c2 # c3 # rest) =
     (case (b64_index c0, b64_index c1) of
        (Some i0, Some i1) \<Rightarrow>
          (if c2 = CHR ''='' then
             (if c3 = CHR ''='' \<and> rest = [] then Some [push_bit 2 i0 OR drop_bit 4 i1]
              else None)
           else
             (case b64_index c2 of
                None \<Rightarrow> None
              | Some i2 \<Rightarrow>
                  (if c3 = CHR ''='' then
                     (if rest = []
                      then Some [push_bit 2 i0 OR drop_bit 4 i1, push_bit 4 i1 OR drop_bit 2 i2]
                      else None)
                   else
                     (case b64_index c3 of
                        None \<Rightarrow> None
                      | Some i3 \<Rightarrow>
                          map_option
                            (\<lambda>bs. (push_bit 2 i0 OR drop_bit 4 i1)
                                    # (push_bit 4 i1 OR drop_bit 2 i2)
                                    # (push_bit 6 i2 OR i3) # bs)
                            (b64decode rest)))))
      | _ \<Rightarrow> None)"
| "b64decode _ = None"

section \<open>The file encoder\<close>

text \<open>
  \<^verbatim>\<open>encode_file_b64(path)\<close> opens the file for reading in binary mode, which raises
  when there is no such file, and returns the base64 text of all its bytes.
\<close>

definition encode_file_b64 :: "world \<Rightarrow> string \<Rightarrow> exn + string" where
  "encode_file_b64 w path =
     (case files w path of
        None \<Rightarrow> Inl (FileNotFoundError path)
      | Some bs \<Rightarrow> Inr (b64encode bs))"

section \<open>The PDF rasterizer\<close>

text \<open>
  PyMuPDF is a library, not code of the script: what it computes is a parameter of the
  model. \<open>parse_pdf\<close> is what \<^verbatim>\<open>fitz.open\<close> makes of a file's bytes (the pages in
  document order, or nothing when the file is not a PDF it can open), \<open>get_pixmap\<close>
  and \<open>tobytes\<close> are the page's \<^verbatim>\<open>get_pixmap(matrix=...)\<close> and the pixmap's
  \<^verbatim>\<open>tobytes("png")\<close>. A page carries its rotation in degrees, which
  \<^verbatim>\<open>set_rotation\<close> overwrites. The remaining fields stand for the interpreter's own
  text codec and float formatting: reading a file in text mode as UTF-8 (which can
  fail), writing text, and \<^verbatim>\<open>format(x, '.nf')\<close>. The zoom factor \<^verbatim>\<open>dpi / 72\<close> is a
  Python float; it is kept as the exact quotient and only handed to the renderer.
\<close>

record page =
  rotation :: int
  content :: "byte list"

datatype matrix = Matrix rat rat

record 'pix env =
  fitz_installed :: bool
  parse_pdf :: "byte list \<Rightarrow> page list option"
  get_pixmap :: "matrix \<Rightarrow> page \<Rightarrow> 'pix"
  tobytes :: "'pix \<Rightarrow> string \<Rightarrow> byte list"
  read_text :: "byte list \<Rightarrow> string option"
  write_text :: "string \<Rightarrow> byte list"
  format_float :: "nat \<Rightarrow> rat \<Rightarrow> string"

definition set_rotation :: "page \<Rightarrow> int \<Rightarrow> page" where
  "set_rotation p r = p\<lparr>rotation := r\<rparr>"

definition fitz_open :: "'pix env \<Rightarrow> world \<Rightarrow> string \<Rightarrow> exn + page list" where
  "fitz_open e w path =
     (case files w path of
        None \<Rightarrow> Inl (FileNotFoundError path)
      | Some bs \<Rightarrow>
          (case parse_pdf e bs of
             None \<Rightarrow> Inl (FileDataError path)
           | Some doc \<Rightarrow> Inr doc))"

text \<open>\<^verbatim>\<open>str(n)\<close> for a natural number: its decimal digits.\<close>

definition digit_char :: "nat \<Rightarrow> char" where
  "digit_char d = ''0123456789'' ! d"

function str_nat :: "nat \<Rightarrow> string" where
  "str_nat n = (if n < 10 then [digit_char n] else str_nat (n div 10) @ [digit_char (n mod 10)])"
  by pat_completeness auto
termination
  by (relation "measure (\<lambda>n. n)") auto

text \<open>
  The body of the loop \<^verbatim>\<open>for i in range(total)\<close> of \<^verbatim>\<open>pdf_to_images_b64\<close>, on the
  list of images so far and the world (it prints a line per page), and the function
  itself. \<^verbatim>\<open>doc[i]\<close> is in range: \<open>i\<close> runs below \<^verbatim>\<open>len(doc)\<close>.
\<close>

definition rotate_page :: "page \<Rightarrow> page" where
  "rotate_page p = set_rotation p ((rotation p + 90) mod 360)"

definition render_page :: "'pix env \<Rightarrow> nat \<Rightarrow> bool \<Rightarrow> page \<Rightarrow> string" where
  "render_page e dpi rotate_cw page0 =
     (let page = (if rotate_cw then rotate_page page0 else page0);
          mat = Matrix (of_nat dpi / 72) (of_nat dpi / 72);
          pix = get_pixmap e mat page;
          img_bytes = tobytes e pix ''png''
      in b64encode img_bytes)"

definition convert_page ::
  "'pix env \<Rightarrow> page list \<Rightarrow> nat \<Rightarrow> bool \<Rightarrow> nat \<Rightarrow> string list \<times> world \<Rightarrow> string list \<times> world"
where
  "convert_page e doc dpi rotate_cw i st =
     (case st of (images, w) \<Rightarrow>
        (images @ [render_page e dpi rotate_cw (doc ! i)],
         print (''    Pagina '' @ str_nat (i + 1) @ ''/'' @ str_nat (length doc)
                @ '' convertida'') w))"

definition pdf_to_images_b64 ::
  "'pix env \<Rightarrow> string \<Rightarrow> nat \<Rightarrow> bool \<Rightarrow> world \<Rightarrow> (exn + string list) \<times> world"
where
  "pdf_to_images_b64 e path dpi rotate_cw w =
     (case fitz_open e w path of
        Inl err \<Rightarrow> (Inl err, w)
      | Inr doc \<Rightarrow>
          (case fold (convert_page e doc dpi rotate_cw) [0..<length doc] ([], w) of
             (images, w') \<Rightarrow> (Inr images, w')))"

section \<open>Text operations of the standard library\<close>

subsection \<open>\<^verbatim>\<open>str.replace\<close> and \<^verbatim>\<open>str.join\<close>\<close>

text \<open>
  \<^verbatim>\<open>s.replace(old, new)\<close> replaces the occurrences of \<open>old\<close> found from left to
  right, the search resuming after each one; with an empty \<open>old\<close> it puts \<open>new\<close>
  before every character and at the end.
\<close>

function str_replace :: "string \<Rightarrow> string \<Rightarrow> string \<Rightarrow> string" where
  "str_replace old new s =
     (if old = [] then new @ concat (map (\<lambda>c. c # new) s)
      else if prefix old s then new @ str_replace old new (drop (length old) s)
      else (case s of [] \<Rightarrow> [] | c # s' \<Rightarrow> c # str_replace old new s'))"
  by pat_completeness auto
termination
  by (relation "measure (\<lambda>(old, new, s). length s)") (auto simp: prefix_def)

fun join :: "string \<Rightarrow> string list \<Rightarrow> string" where
  "join sep [] = []"
| "join sep [x] = x"
| "join sep (x # y # ys) = x @ sep @ join sep (y # ys)"

subsection \<open>The part of \<^verbatim>\<open>re\<close> the script uses\<close>

text \<open>
  \<^verbatim>\<open>re.escape\<close> puts a backslash before each of the characters it lists as special.
  The patterns modelled are sequences of literal characters (plain or escaped) and
  starred one-character classes, \<^verbatim>\<open>.*\<close> and \<^verbatim>\<open>[^c]*\<close>, greedy or with \<^verbatim>\<open>?\<close> lazy;
  \<open>re_parse\<close> gives nothing for any other pattern. With \<^verbatim>\<open>re.DOTALL\<close> the dot
  matches every character, without it every character but the newline.
\<close>

definition re_special :: string where
  \<open>re_special = ''()[]{}?*+-|^$.&~# '' @ [CHR 0x5C, CHR 0x09, CHR 0x0A, CHR 0x0D, CHR 0x0B, CHR 0x0C]\<close>

definition re_escape :: "string \<Rightarrow> string" where
  "re_escape s = concat (map (\<lambda>c. if c \<in> set re_special then [CHR 0x5C, c] else [c]) s)"

datatype cls = AnyChar | NotChar char

datatype item = Chr char | Star cls bool

fun cls_ok :: "cls \<Rightarrow> char \<Rightarrow> bool" where
  "cls_ok AnyChar c = True"
| "cls_ok (NotChar x) c = (c \<noteq> x)"

definition re_meta :: string where
  \<open>re_meta = ''.^$*+?{}[]|()'' @ [CHR 0x5C]\<close>

definition is_alnum :: "char \<Rightarrow> bool" where
  "is_alnum c = (c \<in> set ''abcdefghijklmnopqrstuvwxyzABCDEFGHIJKLMNOPQRSTUVWXYZ0123456789_'')"

definition dot_cls :: "bool \<Rightarrow> cls" where
  "dot_cls dotall = (if dotall then AnyChar else NotChar (CHR 0x0A))"

fun re_parse :: "bool \<Rightarrow> string \<Rightarrow> item list option" where
  "re_parse dotall [] = Some []"
| "re_parse dotall (c # rest) =
     (if c = CHR 0x5C then
        (case rest of
           [] \<Rightarrow> None
         | x # rest1 \<Rightarrow>
             if is_alnum x then None else map_option (Cons (Chr x)) (re_parse dotall rest1))
      else if c = CHR ''.'' then
        (case rest of
           [] \<Rightarrow> None
         | s # rest1 \<Rightarrow>
             if s \<noteq> CHR ''*'' then None
             else
               (case rest1 of
                  [] \<Rightarrow> Some [Star (dot_cls dotall) True]
                | q # rest2 \<Rightarrow>
                    if q = CHR ''?''
                    then map_option (Cons (Star (dot_cls dotall) False)) (re_parse dotall rest2)
                    else map_option (Cons (Star (dot_cls dotall) True))
                           (re_parse dotall (q # rest2))))
      else if c = CHR ''['' then
        (case rest of
           n # x # b # s # rest1 \<Rightarrow>
             if n \<noteq> CHR ''^'' \<or> b \<noteq> CHR '']'' \<or> s \<noteq> CHR ''*''
                \<or> x \<in> set re_meta \<or> x = CHR ''-''
             then None
             else
               (case rest1 of
                  [] \<Rightarrow> Some [Star (NotChar x) True]
                | q # rest2 \<Rightarrow>
                    if q = CHR ''?''
                    then map_option (Cons (Star (NotChar x) False)) (re_parse dotall rest2)
                    else map_option (Cons (Star (NotChar x) True))
                           (re_parse dotall (q # rest2)))
         | _ \<Rightarrow> None)
      else if c \<in> set re_meta then None
      else map_option (Cons (Chr c)) (re_parse dotall rest))"

text \<open>
  The backtracking matcher, anchored at the start of the text: it returns what is left
  of the text after the first match in the engine's order of preference. A greedy star
  tries the longest run first and gives characters back one at a time; a lazy star
  tries the shortest.
\<close>

fun match_here :: "item list \<Rightarrow> string \<Rightarrow> string option" where
  "match_here [] s = Some s"
| "match_here (Chr c # p) s =
     (case s of
        [] \<Rightarrow> None
      | x # s' \<Rightarrow> if x = c then match_here p s' else None)"
| "match_here (Star cl True # p) s =
     (case s of
        [] \<Rightarrow> match_here p []
      | x # s' \<Rightarrow>
          if cls_ok cl x then
            (case match_here (Star cl True # p) s' of
               Some r \<Rightarrow> Some r
             | None \<Rightarrow> match_here p (x # s'))
          else match_here p (x # s'))"
| "match_here (Star cl False # p) s =
     (case match_here p s of
        Some r \<Rightarrow> Some r
      | None \<Rightarrow>
          (case s of
             [] \<Rightarrow> None
           | x # s' \<Rightarrow> if cls_ok cl x then match_here (Star cl False # p) s' else None))"

text \<open>
  \<^verbatim>\<open>re.sub\<close> on a compiled pattern: the leftmost match is replaced and the search
  resumes after it; where no match starts, the character is copied. The patterns
  admitted by \<open>re_compile\<close> hold a literal character, so no match is empty and the
  second branch below is never taken for them.
\<close>

function sub_items :: "item list \<Rightarrow> string \<Rightarrow> string \<Rightarrow> string" where
  "sub_items p repl [] = []"
| "sub_items p repl (c # s) =
     (case match_here p (c # s) of
        None \<Rightarrow> c # sub_items p repl s
      | Some rest \<Rightarrow>
          if length rest < Suc (length s) then repl @ sub_items p repl rest
          else c # sub_items p repl s)"
  by pat_completeness auto
termination
  by (relation "measure (\<lambda>(p, repl, s). length s)") auto

fun is_star :: "item \<Rightarrow> bool" where
  "is_star (Star cl g) = True"
| "is_star (Chr c) = False"

definition re_compile :: "bool \<Rightarrow> string \<Rightarrow> item list option" where
  "re_compile dotall pattern =
     (case re_parse dotall pattern of
        None \<Rightarrow> None
      | Some p \<Rightarrow> if list_all is_star p then None else Some p)"

text \<open>
  \<^verbatim>\<open>re.sub(pattern, repl, string, flags)\<close>. In the replacement only the backslash is
  special. A pattern outside the fragment above and a replacement with a backslash
  are outside this model: they give \<open>ReError\<close>, and the script never gets there.
\<close>

definition re_sub :: "string \<Rightarrow> string \<Rightarrow> string \<Rightarrow> bool \<Rightarrow> exn + string" where
  "re_sub pattern repl string dotall =
     (case re_compile dotall pattern of
        None \<Rightarrow> Inl (ReError pattern)
      | Some p \<Rightarrow>
          if CHR 0x5C \<in> set repl then Inl (ReError repl)
          else Inr (sub_items p repl string))"

section \<open>The script\<close>

definition photo_file :: string where
  "photo_file = ''26.jpg.jpeg''"

definition html_template :: string where
  "html_template = ''credenciales.html''"

definition pdf_files :: "string list" where
  "pdf_files = [''T1.pdf'', ''tp1.pdf'', ''T2.pdf'', ''tp2.pdf'']"

definition output_file :: string where
  "output_file = ''index.html''"

definition required :: "string list" where
  "required = [photo_file, html_template] @ pdf_files"

definition missing :: "world \<Rightarrow> string list" where
  "missing w = filter (\<lambda>f. \<not> exists w f) required"

definition rotate_map :: "string \<rightharpoonup> bool" where
  "rotate_map = [''T2.pdf'' \<mapsto> True]"

text \<open>Step 2 of \<^verbatim>\<open>main\<close>: every PDF becomes the text of its \<^verbatim>\<open><img>\<close> tags, one per page.\<close>

definition img_tag :: "nat \<Rightarrow> string \<Rightarrow> string" where
  \<open>img_tag i img_b64 =
     ''<img src="data:image/png;base64,'' @ img_b64 @ ''" ''
     @ ''alt="Pagina '' @ str_nat (i + 1) @ ''" ''
     @ ''style="width:100%;display:block;margin:0;padding:0;">''\<close>

definition pdf_section :: "string list \<Rightarrow> string" where
  "pdf_section images_b64 =
     join [CHR 0x0A] (map (\<lambda>(i, img_b64). img_tag i img_b64) (enumerate 0 images_b64))"

fun convert_pdfs ::
  "'pix env \<Rightarrow> string list \<Rightarrow> (string \<rightharpoonup> string) \<Rightarrow> world
     \<Rightarrow> (exn + (string \<rightharpoonup> string)) \<times> world"
where
  "convert_pdfs e [] pdf_sections w = (Inr pdf_sections, w)"
| "convert_pdfs e (pdf_name # rest) pdf_sections w =
     (let w1 = print (''  Procesando '' @ pdf_name @ ''...'') w;
          rotate = (case rotate_map pdf_name of None \<Rightarrow> False | Some b \<Rightarrow> b)
      in case pdf_to_images_b64 e pdf_name 200 rotate w1 of
           (Inl err, w2) \<Rightarrow> (Inl err, w2)
         | (Inr images_b64, w2) \<Rightarrow>
             convert_pdfs e rest (pdf_sections(pdf_name \<mapsto> pdf_section images_b64)) w2)"

text \<open>
  Step 3 of \<^verbatim>\<open>main\<close> on the template's text: the photo's \<^verbatim>\<open>src\<close> becomes a data URI,
  then, PDF by PDF in the order of the list, every \<^verbatim>\<open><object>\<close> that names the PDF
  becomes the PDF's section.
\<close>

definition photo_src :: "string \<Rightarrow> string" where
  \<open>photo_src name = ''src="'' @ name @ ''"''\<close>

definition photo_data_uri :: "string \<Rightarrow> string" where
  \<open>photo_data_uri photo_b64 = ''src="data:image/jpeg;base64,'' @ photo_b64 @ ''"''\<close>

definition replace_photo :: "string \<Rightarrow> string \<Rightarrow> string \<Rightarrow> string" where
  "replace_photo name photo_b64 html =
     str_replace (photo_src name) (photo_data_uri photo_b64) html"

definition object_pattern :: "string \<Rightarrow> string" where
  \<open>object_pattern pdf_name =
     ''<object[^>]*data="'' @ re_escape pdf_name @ ''"[^>]*>.*?</object>''\<close>

fun replace_objects :: "string list \<Rightarrow> (string \<rightharpoonup> string) \<Rightarrow> string \<Rightarrow> exn + string" where
  "replace_objects [] pdf_sections html = Inr html"
| "replace_objects (pdf_name # rest) pdf_sections html =
     (case pdf_sections pdf_name of
        None \<Rightarrow> Inl (KeyError pdf_name)
      | Some fragment \<Rightarrow>
          (case re_sub (object_pattern pdf_name) fragment html True of
             Inl err \<Rightarrow> Inl err
           | Inr html' \<Rightarrow> replace_objects rest pdf_sections html'))"

definition read_template :: "'pix env \<Rightarrow> world \<Rightarrow> string \<Rightarrow> exn + string" where
  "read_template e w path =
     (case files w path of
        None \<Rightarrow> Inl (FileNotFoundError path)
      | Some bs \<Rightarrow>
          (case read_text e bs of
             None \<Rightarrow> Inl (UnicodeDecodeError path)
           | Some html \<Rightarrow> Inr html))"

definition write_output :: "'pix env \<Rightarrow> string \<Rightarrow> string \<Rightarrow> world \<Rightarrow> world" where
  "write_output e path html w = w\<lparr>files := (files w)(path \<mapsto> write_text e html)\<rparr>"

definition report_missing :: "world \<Rightarrow> world" where
  "report_missing w =
     fold print
       (''ERROR: No se encontraron los siguientes archivos:''
        # map (\<lambda>f. ''    - '' @ f) (missing w)) w"

definition report_done :: "'pix env \<Rightarrow> nat \<Rightarrow> world \<Rightarrow> world" where
  "report_done e out_size w =
     fold print
       [[],
        replicate 50 (CHR ''=''),
        ''  Archivo generado: '' @ output_file,
        ''  Tamano: '' @ format_float e 1 (of_nat out_size / 1024 / 1024) @ '' MB'',
        replicate 50 (CHR ''=''),
        [],
        ''Puedes abrir el archivo en cualquier navegador.'',
        ''Es completamente autocontenido (un solo archivo HTML).''] w"

definition main :: "'pix env \<Rightarrow> world \<Rightarrow> outcome \<times> world" where
  "main e w =
     (if missing w \<noteq> [] then (SysExit 1, report_missing w)
      else
        let w1 = print ''[1/3] Procesando foto de perfil...'' w in
        case encode_file_b64 w1 photo_file of
          Inl err \<Rightarrow> (Raised err, w1)
        | Inr photo_b64 \<Rightarrow>
            (case getsize w1 photo_file of
               Inl err \<Rightarrow> (Raised err, w1)
             | Inr photo_size \<Rightarrow>
                 let w2 = print (''    Foto codificada (''
                                 @ format_float e 0 (of_nat photo_size / 1024) @ '' KB)'') w1;
                     w3 = print ''[2/3] Convirtiendo PDFs a imagenes...'' w2
                 in
                 (case convert_pdfs e pdf_files Map.empty w3 of
                    (Inl err, w4) \<Rightarrow> (Raised err, w4)
                  | (Inr pdf_sections, w4) \<Rightarrow>
                      let w5 = print ''[3/3] Generando HTML autocontenido...'' w4 in
                      (case read_template e w5 html_template of
                         Inl err \<Rightarrow> (Raised err, w5)
                       | Inr html \<Rightarrow>
                           (case replace_objects pdf_files pdf_sections
                                   (replace_photo photo_file photo_b64 html) of
                              Inl err \<Rightarrow> (Raised err, w5)
                            | Inr html' \<Rightarrow>
                                let w6 = write_output e output_file html' w5 in
                                (case getsize w6 output_file of
                                   Inl err \<Rightarrow> (Raised err, w6)
                                 | Inr out_size \<Rightarrow> (Finished, report_done e out_size w6)))))))"

text \<open>
  The module itself: without PyMuPDF the import fails and the script exits at once;
  otherwise it runs \<^verbatim>\<open>main\<close>.
\<close>

definition run_script :: "'pix env \<Rightarrow> world \<Rightarrow> outcome \<times> world" where
  "run_script e w =
     (if \<not> fitz_installed e then
        (SysExit 1,
         fold print
           [replicate 60 (CHR ''=''),
            ''ERROR: PyMuPDF no esta instalado.'',
            ''Instalalo con:'',
            ''    pip install PyMuPDF'',
            replicate 60 (CHR ''='')] w)
      else main e w)"

section \<open>Notions used in the statements\<close>

text \<open>
  The compiled form of \<open>object_pattern\<close>, and what a match of it is, said without the
  engine: \<^verbatim>\<open><object\<close>, characters other than \<^verbatim>\<open>>\<close>, the \<^verbatim>\<open>data\<close> attribute with the
  name, again characters other than \<^verbatim>\<open>>\<close>, the \<^verbatim>\<open>>\<close>, any text, \<^verbatim>\<open></object>\<close>.
\<close>

definition data_attr :: "string \<Rightarrow> string" where
  \<open>data_attr pdf_name = ''data="'' @ pdf_name @ ''"''\<close>

definition object_open :: string where
  "object_open = ''<object''"

definition object_close :: string where
  "object_close = ''</object>''"



definition is_placeholder :: "string \<Rightarrow> string \<Rightarrow> bool" where
  "is_placeholder pdf_name m =
     (\<exists>n1 n2 a. m = object_open @ n1 @ data_attr pdf_name @ n2 @ ''>'' @ a @ object_close
        \<and> CHR ''>'' \<notin> set n1 \<and> CHR ''>'' \<notin> set n2)"

text \<open>The text after the first occurrence of \<open>lit\<close> in \<open>s\<close>, if there is one.\<close>

fun find_after :: "string \<Rightarrow> string \<Rightarrow> string option" where
  "find_after lit [] = (if lit = [] then Some [] else None)"
| "find_after lit (c # s) =
     (if prefix lit (c # s) then Some (drop (length lit) (c # s)) else find_after lit s)"

text \<open>
  What the engine does with the pattern at the start of a text: the tag must open
  there, the attribute must stand before the first \<^verbatim>\<open>>\<close>, and the match ends with the
  first \<^verbatim>\<open></object>\<close> after that \<^verbatim>\<open>>\<close>.
\<close>

definition tag_match :: "string \<Rightarrow> string \<Rightarrow> string \<Rightarrow> string \<Rightarrow> string option" where
  "tag_match opn attr cls x =
     (if prefix opn x
         \<and> sublist attr (takeWhile (\<lambda>c. c \<noteq> CHR ''>'') (drop (length opn) x))
      then (case dropWhile (\<lambda>c. c \<noteq> CHR ''>'') (drop (length opn) x) of
              [] \<Rightarrow> None
            | g # z \<Rightarrow> find_after cls z)
      else None)"

definition object_match :: "string \<Rightarrow> string \<Rightarrow> string option" where
  "object_match pdf_name x = tag_match object_open (data_attr pdf_name) object_close x"


text \<open>
  The shape of an \<^verbatim>\<open><img>\<close> tag as far as the proofs need it: it opens with \<^verbatim>\<open><i\<close>, ends
  with \<^verbatim>\<open>>\<close>, and has no angle bracket, dot or backslash in between.
\<close>

definition plain :: "char \<Rightarrow> bool" where
  "plain c = (c \<noteq> CHR ''<'' \<and> c \<noteq> CHR ''>'' \<and> c \<noteq> CHR ''.'' \<and> c \<noteq> CHR 0x5C)"

definition img_like :: "string \<Rightarrow> bool" where
  "img_like t = (\<exists>body. t = ''<i'' @ body @ ''>'' \<and> list_all plain body)"

text \<open>
  \<open>edit M r s t\<close>: the text \<open>t\<close> is the text \<open>s\<close> in which some segments that satisfy
  \<open>M\<close>, none of them empty and no two overlapping, have been replaced by \<open>r\<close>; every
  character outside those segments is copied, in place and in order.
\<close>

inductive edit :: "(string \<Rightarrow> bool) \<Rightarrow> string \<Rightarrow> string \<Rightarrow> string \<Rightarrow> bool"
  for M :: "string \<Rightarrow> bool" and r :: string
where
  edit_Nil: "edit M r [] []"
| edit_copy: "edit M r s t \<Longrightarrow> edit M r (c # s) (c # t)"
| edit_replace: "M m \<Longrightarrow> m \<noteq> [] \<Longrightarrow> edit M r s t \<Longrightarrow> edit M r (m @ s) (r @ t)"


section \<open>Sample inputs\<close>

text \<open>
  A small environment to run the model on: a "PDF" is a list of bytes, one page per
  byte, a page renders to its content, and text is ASCII.
\<close>

definition demo_env :: "byte list env" where
  "demo_env =
     \<lparr>fitz_installed = True,
      parse_pdf = (\<lambda>bs. Some (map (\<lambda>b. \<lparr>rotation = 0, content = [b]\<rparr>) bs)),
      get_pixmap = (\<lambda>m p. content p @ [of_int (rotation p div 90)]),
      tobytes = (\<lambda>pix fmt. pix),
      read_text = (\<lambda>bs. Some (map (\<lambda>b. char_of (unat b)) bs)),
      write_text = map (\<lambda>c. of_nat (of_char c)),
      format_float = (\<lambda>n x. str_nat (nat \<lfloor>x\<rfloor>))\<rparr>"

definition demo_world :: world where
  "demo_world = \<lparr>files = [''T1.pdf'' \<mapsto> [1, 2]], stdout = []\<rparr>"


section \<open>Facts about base64\<close>

lemma and3: "(x::byte) AND 3 = take_bit 2 x"
  by (simp add: take_bit_eq_mask mask_eq_exp_minus_1)

lemma and15: "(x::byte) AND 0xf = take_bit 4 x"
  by (simp add: take_bit_eq_mask mask_eq_exp_minus_1)

lemma and63: "(x::byte) AND 0x3f = take_bit 6 x"
  by (simp add: take_bit_eq_mask mask_eq_exp_minus_1)

lemma sh2: "2 \<le> n \<Longrightarrow> Suc (Suc (n - 2)) = n"
  by simp

lemma sh4: "4 \<le> n \<Longrightarrow> 4 + (n - 4) = (n::nat)"
  by simp

lemma sh6: "6 \<le> n \<Longrightarrow> 6 + (n - 6) = (n::nat)"
  by simp

lemma no_bit_above_byte: "\<not> bit (x::byte) (8 + n)"
  by (auto dest: bit_imp_le_length)

lemmas sextet_simps = bit_simps sh2 sh4 sh6 no_bit_above_byte not_less

lemma byte0_of_sextets:
  "push_bit 2 (drop_bit 2 (a::byte) AND 0x3f)
     OR drop_bit 4 ((push_bit 4 (a AND 3) OR drop_bit 4 b) AND 0x3f) = a"
  unfolding and3 and15 and63
  apply (rule bit_word_eqI)
  subgoal for n
    by (cases "n < 2") (auto simp add: sextet_simps)
  done

lemma byte1_of_sextets:
  "push_bit 4 ((push_bit 4 ((a::byte) AND 3) OR drop_bit 4 b) AND 0x3f)
     OR drop_bit 2 ((push_bit 2 (b AND 0xf) OR drop_bit 6 c) AND 0x3f) = b"
  unfolding and3 and15 and63
  apply (rule bit_word_eqI)
  subgoal for n
    by (cases "n < 4") (auto simp add: sextet_simps)
  done

lemma byte2_of_sextets:
  "push_bit 6 ((push_bit 2 ((b::byte) AND 0xf) OR drop_bit 6 c) AND 0x3f) OR (c AND 0x3f) = c"
  unfolding and3 and15 and63
  apply (rule bit_word_eqI)
  subgoal for n
    by (cases "n < 6") (auto simp add: sextet_simps)
  done

lemma byte0_of_sextets_last:
  "push_bit 2 (drop_bit 2 (a::byte) AND 0x3f)
     OR drop_bit 4 (push_bit 4 (a AND 3) AND 0x3f) = a"
  unfolding and3 and15 and63
  apply (rule bit_word_eqI)
  subgoal for n
    by (cases "n < 2") (auto simp add: sextet_simps)
  done

lemma byte1_of_sextets_last:
  "push_bit 4 ((push_bit 4 ((a::byte) AND 3) OR drop_bit 4 b) AND 0x3f)
     OR drop_bit 2 (push_bit 2 (b AND 0xf) AND 0x3f) = b"
  unfolding and3 and15 and63
  apply (rule bit_word_eqI)
  subgoal for n
    by (cases "n < 4") (auto simp add: sextet_simps)
  done

lemma length_b64_alphabet: "length b64_alphabet = 64"
  by (simp add: b64_alphabet_def)

lemma sextet_less_64: "unat ((v::byte) AND 0x3f) < 64"
proof -
  have "take_bit 6 (unat v) < 2 ^ 6"
    by (rule take_bit_nat_less_exp)
  then show ?thesis by (simp add: and63 unsigned_take_bit_eq)
qed

lemma b64_index_alphabet:
  "list_all (\<lambda>n. b64_index (b64_alphabet ! n) = Some (of_nat n)) [0..<64]"
  unfolding b64_index_def b64_alphabet_def by (simp add: upt_rec)

lemma b64_index_char: "b64_index (b64_char v) = Some (v AND 0x3f)"
proof -
  have "unat (v AND 0x3f) \<in> set [0..<64]"
    using sextet_less_64 [of v] by simp
  with b64_index_alphabet
  have "b64_index (b64_alphabet ! unat (v AND 0x3f)) = Some (of_nat (unat (v AND 0x3f)))"
    unfolding list_all_iff by blast
  then show ?thesis by (simp add: b64_char_def)
qed

lemma b64_char_in_alphabet: "b64_char v \<in> set b64_alphabet"
  unfolding b64_char_def
  by (rule nth_mem) (simp add: length_b64_alphabet sextet_less_64)

lemma b64_char_not_pad: "b64_char v \<noteq> CHR ''=''"
proof
  assume "b64_char v = CHR ''=''"
  with b64_char_in_alphabet [of v] have "CHR ''='' \<in> set b64_alphabet" by simp
  then show False by (simp add: b64_alphabet_def)
qed

lemmas decode_simps =
  option.simps prod.case if_False if_True simp_thms append.simps

lemma b64decode_b64encode: "b64decode (b64encode bs) = Some bs"
proof (induction bs rule: b64encode.induct)
  case 1
  show ?case by simp
next
  case (2 a)
  show ?case
    by (simp only: b64encode.simps b64decode.simps b64_index_char b64_char_not_pad
        byte0_of_sextets_last decode_simps)
next
  case (3 a b)
  show ?case
    by (simp only: b64encode.simps b64decode.simps b64_index_char b64_char_not_pad
        byte0_of_sextets byte1_of_sextets_last decode_simps)
next
  case (4 a b c rest)
  then show ?case
    by (simp only: b64encode.simps b64decode.simps b64_index_char b64_char_not_pad
        byte0_of_sextets byte1_of_sextets byte2_of_sextets decode_simps)
qed

section \<open>Facts about the rasterizer and the printed lines\<close>

lemma files_print: "files (print l w) = files w"
  by (simp add: print_def)

lemma files_fold_print: "files (fold print ls w) = files w"
  by (induction ls arbitrary: w) (simp_all add: files_print)

lemma stdout_fold_print: "stdout (fold print ls w) = stdout w @ ls"
  by (induction ls arbitrary: w) (simp_all add: print_def)

lemma convert_page_fst:
  "fst (convert_page e doc dpi r i st) = fst st @ [render_page e dpi r (doc ! i)]"
  by (cases st) (simp add: convert_page_def)

lemma fold_convert_page:
  "fst (fold (convert_page e doc dpi r) [0..<n] st)
     = fst st @ map (\<lambda>i. render_page e dpi r (doc ! i)) [0..<n]"
  by (induction n) (simp_all add: convert_page_fst)

lemma pdf_to_images_b64_valid:
  assumes "files w path = Some bs" and "parse_pdf e bs = Some doc"
  shows "fst (pdf_to_images_b64 e path dpi r w) = Inr (map (render_page e dpi r) doc)"
proof -
  have "map (\<lambda>i. render_page e dpi r (doc ! i)) [0..<length doc] = map (render_page e dpi r) doc"
    by (rule nth_equalityI) simp_all
  moreover have "fst (fold (convert_page e doc dpi r) [0..<length doc] ([], w))
      = map (\<lambda>i. render_page e dpi r (doc ! i)) [0..<length doc]"
    using fold_convert_page [of e doc dpi r "length doc" "([], w)"] by simp
  ultimately have "fst (fold (convert_page e doc dpi r) [0..<length doc] ([], w))
      = map (render_page e dpi r) doc"
    by simp
  then show ?thesis
    using assms
    by (cases "fold (convert_page e doc dpi r) [0..<length doc] ([], w)")
      (simp add: pdf_to_images_b64_def fitz_open_def)
qed

section \<open>Facts about the pattern and the engine\<close>


















declare match_here.simps [simp del]














lemma find_after_prefix: "prefix lit z \<Longrightarrow> find_after lit z = Some (drop (length lit) z)"
  by (cases z) simp_all

lemma find_after_occurs: "find_after lit (a @ lit @ w) \<noteq> None"
proof (induction a)
  case Nil
  show ?case by (simp add: find_after_prefix)
next
  case (Cons c a)
  then show ?case by simp
qed

lemma find_after_first:
  assumes "\<not> sublist lit (a @ butlast lit)" and "lit \<noteq> []"
  shows "find_after lit (a @ lit @ w) = Some w"
  using assms(1)
proof (induction a)
  case Nil
  show ?case by (simp add: find_after_prefix)
next
  case (Cons c a)
  have "\<not> prefix lit (c # a @ lit @ w)"
  proof
    assume p: "prefix lit (c # a @ lit @ w)"
    have "length lit \<le> length (c # a @ butlast lit)"
      using assms(2) by (cases lit) simp_all
    moreover have "prefix (c # a @ butlast lit) (c # a @ lit @ w)"
      using assms(2) by (metis append.assoc append_Cons append_butlast_last_id prefix_def)
    ultimately have "prefix lit (c # a @ butlast lit)"
      using p by (meson prefix_length_prefix)
    then have "sublist lit ((c # a) @ butlast lit)" by simp
    with Cons.prems show False by simp
  qed
  moreover have "\<not> sublist lit (a @ butlast lit)"
    using Cons.prems by (auto simp add: sublist_Cons_right)
  ultimately show ?case using Cons.IH by simp
qed

subsection \<open>Matches of the object pattern are placeholders\<close>


lemma tag_match_occurs:
  assumes "CHR ''>'' \<notin> set n1" and "CHR ''>'' \<notin> set n2" and "CHR ''>'' \<notin> set d"
  shows "tag_match opn d cls (opn @ n1 @ d @ n2 @ ''>'' @ a @ cls @ w) \<noteq> None"
proof -
  have t: "takeWhile (\<lambda>c. c \<noteq> CHR ''>'') ((n1 @ d @ n2) @ CHR ''>'' # a @ cls @ w) = n1 @ d @ n2"
    using assms by (subst takeWhile_append2) auto
  have dw: "dropWhile (\<lambda>c. c \<noteq> CHR ''>'') ((n1 @ d @ n2) @ CHR ''>'' # a @ cls @ w)
              = CHR ''>'' # a @ cls @ w"
    using assms by (subst dropWhile_append2) auto
  show ?thesis
    using t dw by (simp add: tag_match_def find_after_occurs)
qed


lemma placeholder_object_match:
  assumes "is_placeholder name m" and "CHR ''>'' \<notin> set name"
  shows "object_match name (m @ w) \<noteq> None"
proof -
  from assms(1) obtain n1 n2 a where
    m: "m = object_open @ n1 @ data_attr name @ n2 @ ''>'' @ a @ object_close"
    and n: "CHR ''>'' \<notin> set n1" "CHR ''>'' \<notin> set n2"
    unfolding is_placeholder_def by blast
  have d: "CHR ''>'' \<notin> set (data_attr name)"
    using assms(2) by (simp add: data_attr_def)
  show ?thesis
    unfolding object_match_def m
    using tag_match_occurs [OF n d, of object_open object_close a w] by simp
qed

subsection \<open>The substitution loop\<close>


lemma sub_items_hit:
  "match_here p (c # s) = Some rest \<Longrightarrow> length rest < Suc (length s) \<Longrightarrow>
     sub_items p r (c # s) = r @ sub_items p r rest"
  by simp

declare sub_items.simps(2) [simp del]


lemma sub_items_match:
  assumes "match_here p (m @ w) = Some w" and "m \<noteq> []"
  shows "sub_items p r (m @ w) = r @ sub_items p r w"
proof -
  from assms(2) obtain c m' where m: "m = c # m'" by (cases m) auto
  with assms(1) show ?thesis
    by (simp add: sub_items_hit)
qed



subsection \<open>\<^verbatim>\<open>str.replace\<close>\<close>




declare str_replace.simps [simp del]



subsection \<open>The text of a section\<close>


lemma digit_char_digit: "d < 10 \<Longrightarrow> digit_char d \<in> set ''0123456789''"
  unfolding digit_char_def by (rule nth_mem) simp

lemma str_nat_digits: "set (str_nat n) \<subseteq> set ''0123456789''"
proof (induction n rule: str_nat.induct)
  case (1 n)
  show ?case
  proof (cases "n < 10")
    case True
    then show ?thesis
      using digit_char_digit [of n] by (subst str_nat.simps) simp
  next
    case False
    have "n mod 10 < 10" by simp
    then have "digit_char (n mod 10) \<in> set ''0123456789''" by (rule digit_char_digit)
    with False 1 show ?thesis
      by (subst str_nat.simps) simp
  qed
qed

lemma plain_b64_alphabet: "list_all plain b64_alphabet"
  by (simp add: b64_alphabet_def plain_def)

lemma plain_digits: "list_all plain ''0123456789''"
  by (simp add: plain_def)

lemma plain_b64:
  assumes "set b \<subseteq> set b64_alphabet \<union> {CHR ''=''}"
  shows "list_all plain b"
proof -
  have "plain (CHR ''='')" by (simp add: plain_def)
  with plain_b64_alphabet assms show ?thesis
    unfolding list_all_iff by blast
qed

lemma plain_str_nat: "list_all plain (str_nat n)"
  using plain_digits str_nat_digits [of n] unfolding list_all_iff by blast

lemma plain_img_src: \<open>list_all plain ''mg src="data:image/png;base64,''\<close>
  by (simp add: plain_def)

lemma plain_img_alt: \<open>list_all plain ''" alt="Pagina ''\<close>
  by (simp add: plain_def)

lemma plain_img_style:
  \<open>list_all plain ''" style="width:100%;display:block;margin:0;padding:0;"''\<close>
  by (simp add: plain_def)

lemma img_tag_img_like:
  assumes "set b \<subseteq> set b64_alphabet \<union> {CHR ''=''}"
  shows "img_like (img_tag i b)"
proof -
  let ?body = \<open>''mg src="data:image/png;base64,'' @ b @ ''" alt="Pagina '' @ str_nat (i + 1)
               @ ''" style="width:100%;display:block;margin:0;padding:0;"''\<close>
  have "list_all plain ?body"
    using plain_b64 [OF assms] plain_str_nat [of "i + 1"] plain_img_src plain_img_alt
      plain_img_style
    by (simp only: list_all_append simp_thms)
  moreover have "img_tag i b = ''<i'' @ ?body @ ''>''"
    by (simp add: img_tag_def)
  ultimately show ?thesis
    unfolding img_like_def by blast
qed

lemma sublist_append_cases:
  assumes "sublist pat (a @ b)"
  shows "sublist pat a \<or> sublist pat b
         \<or> (\<exists>x1 x2. pat = x1 @ x2 \<and> x1 \<noteq> [] \<and> x2 \<noteq> [] \<and> suffix x1 a \<and> prefix x2 b)"
proof -
  from assms have "sublist pat a \<or> sublist pat b
      \<or> (\<exists>x1 x2. pat = x1 @ x2 \<and> suffix x1 a \<and> prefix x2 b)"
    by (simp only: sublist_append)
  moreover {
    fix x1 x2
    assume x: "pat = x1 @ x2" "suffix x1 a" "prefix x2 b"
    have ?thesis
    proof (cases "x1 = []")
      case True
      with x have "prefix pat b" by simp
      then show ?thesis by simp
    next
      case False
      show ?thesis
      proof (cases "x2 = []")
        case True
        with x have "suffix pat a" by simp
        then show ?thesis by simp
      next
        case x2: False
        with False x show ?thesis by blast
      qed
    qed
  }
  ultimately show ?thesis by blast
qed


lemma sublist_append_left:
  assumes "a = [] \<or> last a \<notin> set (butlast pat)"
  shows "sublist pat (a @ b) \<longleftrightarrow> sublist pat a \<or> sublist pat b"
proof
  assume "sublist pat (a @ b)"
  then consider "sublist pat a" | "sublist pat b"
    | x1 x2 where "pat = x1 @ x2" "x1 \<noteq> []" "x2 \<noteq> []" "suffix x1 a" "prefix x2 b"
    using sublist_append_cases by blast
  then show "sublist pat a \<or> sublist pat b"
  proof cases
    case 3
    then have "a \<noteq> []" and "last a = last x1"
      by (auto simp add: suffix_def)
    moreover have "last x1 \<in> set (butlast pat)"
      using 3 by (simp add: butlast_append)
    ultimately show ?thesis using assms by auto
  qed simp_all
next
  assume "sublist pat a \<or> sublist pat b"
  then show "sublist pat (a @ b)"
    by (auto simp add: sublist_def) (metis append.assoc)+
qed

lemma set_join: "set (join sep ts) \<subseteq> set sep \<union> \<Union> (set ` set ts)"
  by (induction sep ts rule: join.induct) auto

lemma img_like_chars:
  assumes "img_like t" and "c \<in> set t"
  shows "c \<noteq> CHR ''.'' \<and> c \<noteq> CHR 0x5C"
proof -
  from assms(1) obtain body where t: "t = ''<i'' @ body @ ''>''"
    and "list_all plain body"
    unfolding img_like_def by blast
  then have b: "CHR ''.'' \<notin> set body" "CHR 0x5C \<notin> set body"
    unfolding list_all_iff plain_def by blast+
  from assms(2) t have "c = CHR ''<'' \<or> c = CHR ''i'' \<or> c = CHR ''>'' \<or> c \<in> set body"
    by auto
  with b show ?thesis by auto
qed

lemma img_like_ends:
  assumes "img_like t"
  shows "t \<noteq> [] \<and> hd t = CHR ''<'' \<and> last t = CHR ''>''"
proof -
  from assms obtain body where "t = ''<i'' @ body @ ''>''"
    unfolding img_like_def by blast
  then show ?thesis by simp
qed

lemma img_like_no_lt_o:
  assumes "img_like t"
  shows "\<not> sublist ''<o'' t"
proof -
  from assms obtain body where t: "t = ''<i'' @ body @ ''>''"
    and "list_all plain body"
    unfolding img_like_def by blast
  then have b: "CHR ''<'' \<notin> set body"
    unfolding list_all_iff plain_def by blast
  have "\<not> sublist ''<o'' (body @ ''>'')"
    using b by (auto dest: set_mono_sublist)
  then show ?thesis
    by (simp add: t sublist_Cons_right)
qed

lemma join_tags_chars:
  assumes "\<forall>t \<in> set ts. img_like t" and "c \<in> set (join [CHR 0x0A] ts)"
  shows "c \<noteq> CHR ''.'' \<and> c \<noteq> CHR 0x5C"
proof -
  from assms(2) set_join [of "[CHR 0x0A]" ts]
  have "c \<in> set [CHR 0x0A] \<union> \<Union> (set ` set ts)" by blast
  then consider "c = CHR 0x0A" | t where "t \<in> set ts" "c \<in> set t" by auto
  then show ?thesis
  proof cases
    case 1
    then show ?thesis by simp
  next
    case 2
    with assms(1) have "img_like t" by blast
    then show ?thesis using 2(2) by (rule img_like_chars)
  qed
qed

lemma join_tags_ends:
  assumes "\<forall>t \<in> set ts. img_like t" and "ts \<noteq> []"
  shows "join sep ts \<noteq> [] \<and> hd (join sep ts) = CHR ''<'' \<and> last (join sep ts) = CHR ''>''"
  using assms
proof (induction sep ts rule: join.induct)
  case (1 sep)
  then show ?case by simp
next
  case (2 sep x)
  then have "img_like x" by simp
  then show ?case using img_like_ends [of x] by simp
next
  case (3 sep x y ys)
  then have "join sep (y # ys) \<noteq> []"
    and "last (join sep (y # ys)) = CHR ''>''" by simp_all
  moreover from 3 have "img_like x" by simp
  then have "x \<noteq> []" and "hd x = CHR ''<''"
    using img_like_ends [of x] by simp_all
  ultimately show ?case by simp
qed

lemma join_tags_no_lt_o:
  assumes "\<forall>t \<in> set ts. img_like t"
  shows "\<not> sublist ''<o'' (join [CHR 0x0A] ts)"
  using assms
proof (induction "[CHR 0x0A]" ts rule: join.induct)
  case 1
  show ?case by simp
next
  case (2 x)
  then show ?case by (simp add: img_like_no_lt_o)
next
  case (3 x y ys)
  from 3 have ix: "img_like x" by simp
  have x: "\<not> sublist ''<o'' x" and l: "last x = CHR ''>''" and ne: "x \<noteq> []"
    using ix img_like_no_lt_o [of x] img_like_ends [of x] by simp_all
  have r: "\<not> sublist ''<o'' (join [CHR 0x0A] (y # ys))"
    using 3 by simp
  have "\<not> sublist ''<o'' ([CHR 0x0A] @ join [CHR 0x0A] (y # ys))"
    using r by (subst sublist_append_left) (simp_all add: sublist_Cons_right)
  then have "\<not> sublist ''<o'' (x @ [CHR 0x0A] @ join [CHR 0x0A] (y # ys))"
    using x l ne by (subst sublist_append_left) simp_all
  then show ?case by simp
qed

lemma pdf_section_tags:
  assumes "\<forall>b \<in> set imgs. set b \<subseteq> set b64_alphabet \<union> {CHR ''=''}"
  shows "\<forall>t \<in> set (map (\<lambda>(i, img_b64). img_tag i img_b64) (enumerate n imgs)). img_like t"
proof
  fix t
  assume "t \<in> set (map (\<lambda>(i, img_b64). img_tag i img_b64) (enumerate n imgs))"
  then obtain i b where t: "t = img_tag i b" and "(i, b) \<in> set (enumerate n imgs)"
    by auto
  then have "b \<in> set imgs"
    by (auto simp add: in_set_enumerate_eq)
  with assms have "set b \<subseteq> set b64_alphabet \<union> {CHR ''=''}" by blast
  then show "img_like t"
    unfolding t by (rule img_tag_img_like)
qed

lemma pdf_section_img_like:
  assumes "\<forall>b \<in> set imgs. set b \<subseteq> set b64_alphabet \<union> {CHR ''=''}"
  shows "\<forall>t \<in> set (map (\<lambda>(i, img_b64). img_tag i img_b64) (enumerate 0 imgs)). img_like t"
  using assms by (rule pdf_section_tags)


lemma pdf_section_no_dot:
  assumes "\<forall>b \<in> set imgs. set b \<subseteq> set b64_alphabet \<union> {CHR ''=''}"
  shows "CHR ''.'' \<notin> set (pdf_section imgs)"
  using join_tags_chars [OF pdf_section_img_like [OF assms]]
  unfolding pdf_section_def by blast

lemma pdf_section_no_lt_o:
  assumes "\<forall>b \<in> set imgs. set b \<subseteq> set b64_alphabet \<union> {CHR ''=''}"
  shows "\<not> sublist ''<o'' (pdf_section imgs)"
  unfolding pdf_section_def
  using pdf_section_img_like [OF assms] by (rule join_tags_no_lt_o)

lemma pdf_section_ends:
  assumes "\<forall>b \<in> set imgs. set b \<subseteq> set b64_alphabet \<union> {CHR ''=''}" and "imgs \<noteq> []"
  shows "pdf_section imgs \<noteq> [] \<and> hd (pdf_section imgs) = CHR ''<''
         \<and> last (pdf_section imgs) = CHR ''>''"
  unfolding pdf_section_def
  using pdf_section_img_like [OF assms(1)] assms(2)
  by (intro join_tags_ends) (simp_all add: enumerate_eq_zip)













subsection \<open>What \<^verbatim>\<open>str.replace\<close> leaves behind\<close>








subsection \<open>The photo reference and its data URI\<close>









section \<open>Claims\<close>

text \<open>
  C1. For every readable file, decoding the base64 string that \<^verbatim>\<open>encode_file_b64\<close>
  returns gives back exactly the bytes of the file.
\<close>

theorem encode_file_b64_roundtrip:
  assumes "files w path = Some bs"
  shows "\<exists>s. encode_file_b64 w path = Inr s \<and> b64decode s = Some bs"
  using assms by (simp add: encode_file_b64_def b64decode_b64encode)

theorem encode_file_b64_roundtrip_witness:
  "files \<lparr>files = [''26.jpg.jpeg'' \<mapsto> [0x4d, 0x61, 0x6e, 0xff]], stdout = []\<rparr> ''26.jpg.jpeg''
     = Some [0x4d, 0x61, 0x6e, 0xff]
   \<and> (\<exists>s. encode_file_b64 \<lparr>files = [''26.jpg.jpeg'' \<mapsto> [0x4d, 0x61, 0x6e, 0xff]], stdout = []\<rparr>
            ''26.jpg.jpeg'' = Inr s
          \<and> b64decode s = Some [0x4d, 0x61, 0x6e, 0xff])"
  using encode_file_b64_roundtrip
    [of "\<lparr>files = [''26.jpg.jpeg'' \<mapsto> [0x4d, 0x61, 0x6e, 0xff]], stdout = []\<rparr>"
        "''26.jpg.jpeg''" "[0x4d, 0x61, 0x6e, 0xff]"]
  by simp

text \<open>
  C2. For a valid PDF with N pages the rasterizer returns N base64 strings, and the
  i-th one is the base64 text of the PNG that the i-th page renders to (at the zoom
  \<open>dpi / 72\<close>, after the optional rotation): it decodes to exactly those bytes.
\<close>

theorem pdf_to_images_b64_pages:
  assumes "files w path = Some bs" and "parse_pdf e bs = Some doc"
  shows "\<exists>images.
           fst (pdf_to_images_b64 e path dpi rotate_cw w) = Inr images
         \<and> length images = length doc
         \<and> (\<forall>i<length doc.
               images ! i =
                 b64encode (tobytes e
                   (get_pixmap e (Matrix (of_nat dpi / 72) (of_nat dpi / 72))
                      (if rotate_cw then rotate_page (doc ! i) else doc ! i)) ''png'')
             \<and> b64decode (images ! i) =
                 Some (tobytes e
                   (get_pixmap e (Matrix (of_nat dpi / 72) (of_nat dpi / 72))
                      (if rotate_cw then rotate_page (doc ! i) else doc ! i)) ''png''))"
proof -
  have "fst (pdf_to_images_b64 e path dpi rotate_cw w)
          = Inr (map (render_page e dpi rotate_cw) doc)"
    using assms by (rule pdf_to_images_b64_valid)
  then show ?thesis
    by (auto simp add: render_page_def b64decode_b64encode)
qed

theorem pdf_to_images_b64_pages_witness:
  "files demo_world ''T1.pdf'' = Some [1, 2]
   \<and> fst (pdf_to_images_b64 demo_env ''T1.pdf'' 200 False demo_world) = Inr [''AQA='', ''AgA='']"
proof -
  have f: "files demo_world ''T1.pdf'' = Some [1, 2]"
    by (simp add: demo_world_def)
  have p: "parse_pdf demo_env [1, 2]
             = Some [\<lparr>rotation = 0, content = [1]\<rparr>, \<lparr>rotation = 0, content = [2]\<rparr>]"
    by (simp add: demo_env_def)
  from pdf_to_images_b64_pages [OF f p, of 200 False]
  obtain images where
    i: "fst (pdf_to_images_b64 demo_env ''T1.pdf'' 200 False demo_world) = Inr images"
    and l: "length images = 2"
    and n: "\<forall>i<2. images ! i =
              b64encode (tobytes demo_env (get_pixmap demo_env (Matrix (200 / 72) (200 / 72))
                ([\<lparr>rotation = 0, content = [1]\<rparr>, \<lparr>rotation = 0, content = [2]\<rparr>] ! i)) ''png'')"
    by auto
  from n have "images ! 0 = ''AQA=''" and "images ! 1 = ''AgA=''"
    by (simp_all add: demo_env_def b64_char_def b64_alphabet_def)
  with l have "images = [''AQA='', ''AgA='']"
    by (cases images; cases "tl images"; cases "tl (tl images)") auto
  with i f show ?thesis by simp
qed

text \<open>
  C3. With the rotation flag a page whose rotation is R is rendered as the page with
  rotation (R + 90) mod 360 is rendered without the flag; rotating the same page
  twice gives rotation (R + 180) mod 360. Nothing but the rotation of the page
  changes.
\<close>

theorem rotate_cw_adds_90:
  "render_page e dpi True p
     = render_page e dpi False (p\<lparr>rotation := (rotation p + 90) mod 360\<rparr>)
   \<and> rotation (rotate_page p) = (rotation p + 90) mod 360
   \<and> content (rotate_page p) = content p
   \<and> rotation (rotate_page (rotate_page p)) = (rotation p + 180) mod 360
   \<and> (files w path = Some bs \<and> parse_pdf e bs = Some doc \<longrightarrow>
        fst (pdf_to_images_b64 e path dpi True w)
          = Inr (map (\<lambda>q. render_page e dpi False (q\<lparr>rotation := (rotation q + 90) mod 360\<rparr>))
                   doc))"
proof -
  have twice: "((rotation p + 90) mod 360 + 90) mod 360 = (rotation p + 180) mod 360"
    by presburger
  have one: "\<And>q. render_page e dpi True q
               = render_page e dpi False (q\<lparr>rotation := (rotation q + 90) mod 360\<rparr>)"
    by (simp add: render_page_def rotate_page_def set_rotation_def)
  show ?thesis
    using twice one pdf_to_images_b64_valid [of w path bs e doc dpi True]
    by (auto simp add: rotate_page_def set_rotation_def)
qed

theorem rotate_cw_adds_90_witness:
  "rotation (rotate_page \<lparr>rotation = 270, content = [1]\<rparr>) = 0
   \<and> rotation (rotate_page (rotate_page \<lparr>rotation = 270, content = [1]\<rparr>)) = 90
   \<and> fst (pdf_to_images_b64 demo_env ''T1.pdf'' 200 True demo_world) = Inr [''AQE='', ''AgE='']"
proof -
  have f: "files demo_world ''T1.pdf'' = Some [1, 2]"
    by (simp add: demo_world_def)
  have p: "parse_pdf demo_env [1, 2]
             = Some [\<lparr>rotation = 0, content = [1]\<rparr>, \<lparr>rotation = 0, content = [2]\<rparr>]"
    by (simp add: demo_env_def)
  show ?thesis
    using rotate_cw_adds_90
      [of demo_env 200 "\<lparr>rotation = 270, content = [1]\<rparr>" demo_world "''T1.pdf''" "[1, 2]"
          "[\<lparr>rotation = 0, content = [1]\<rparr>, \<lparr>rotation = 0, content = [2]\<rparr>]"]
      f p
    by (simp add: render_page_def demo_env_def b64_char_def b64_alphabet_def)
qed

text \<open>
  C5. If a required input file (the photo, the template or one of the four PDFs) is
  absent, the run ends with exit status 1 after printing the header line and one line
  per missing file; no file is created or changed, the output file in particular, and
  nothing else is printed (no conversion is attempted).
\<close>

theorem missing_input_exits:
  assumes "\<exists>f \<in> set required. \<not> exists w f"
  shows "main e w = (SysExit 1, report_missing w)
       \<and> missing w \<noteq> []
       \<and> set (missing w) = {f \<in> set required. \<not> exists w f}
       \<and> stdout (report_missing w)
           = stdout w @ ''ERROR: No se encontraron los siguientes archivos:''
                        # map (\<lambda>f. ''    - '' @ f) (missing w)
       \<and> files (report_missing w) = files w
       \<and> fst (run_script e w) = SysExit 1
       \<and> files (snd (run_script e w)) = files w
       \<and> files (snd (run_script e w)) output_file = files w output_file"
proof -
  from assms have m: "missing w \<noteq> []"
    by (auto simp add: missing_def filter_empty_conv)
  then have "main e w = (SysExit 1, report_missing w)"
    by (simp add: main_def)
  moreover have "set (missing w) = {f \<in> set required. \<not> exists w f}"
    by (auto simp add: missing_def)
  moreover have "stdout (report_missing w)
      = stdout w @ ''ERROR: No se encontraron los siguientes archivos:''
                   # map (\<lambda>f. ''    - '' @ f) (missing w)"
    unfolding report_missing_def by (rule stdout_fold_print)
  moreover have f: "files (report_missing w) = files w"
    unfolding report_missing_def by (rule files_fold_print)
  moreover have "fst (run_script e w) = SysExit 1"
    using m by (simp add: run_script_def main_def)
  moreover have "files (snd (run_script e w)) = files w"
    using m f by (simp add: run_script_def main_def files_print)
  ultimately show ?thesis
    using m by simp
qed

theorem missing_input_exits_witness:
  "(\<exists>f \<in> set required. \<not> exists demo_world f)
   \<and> main demo_env demo_world = (SysExit 1, report_missing demo_world)
   \<and> missing demo_world
       = [''26.jpg.jpeg'', ''credenciales.html'', ''tp1.pdf'', ''T2.pdf'', ''tp2.pdf'']
   \<and> files (snd (run_script demo_env demo_world)) output_file = None"
proof -
  have h: "\<exists>f \<in> set required. \<not> exists demo_world f"
    by (simp add: required_def exists_def demo_world_def photo_file_def)
  have "missing demo_world
          = [''26.jpg.jpeg'', ''credenciales.html'', ''tp1.pdf'', ''T2.pdf'', ''tp2.pdf'']"
    by (simp add: missing_def required_def exists_def demo_world_def photo_file_def
        html_template_def pdf_files_def)
  moreover have "files demo_world output_file = None"
    by (simp add: demo_world_def output_file_def)
  ultimately show ?thesis
    using missing_input_exits [OF h, of demo_env] h by simp
qed








end
